theory Spec2Isabelle
  imports Complex_Main
begin

section \<open>Data model (models/sharded-input.model.ts)\<close>

text \<open>
  The interfaces of the model file, one record each. TypeScript's \<open>number\<close> is used
  here only for ids, sizes, counts and indices, so it is modelled by \<open>int\<close>; the
  non-finite results of a division by zero are kept apart in \<open>js_num\<close> below.
  The field \<open>id\<close> of \<open>InputRow\<close> is called \<open>id_row\<close>, since \<open>id\<close> is the
  identity function of HOL.
\<close>

record InputRow =
  id_row :: int
  vmName :: string
  ipAddress :: string
  subnetMask :: string
  defaultGateway :: string

record InputGroup =
  groupName :: string
  rows :: "InputRow list"

record Shard =
  shardId :: int
  groups :: "InputGroup list"

record ShardedInputGroups =
  totalRows :: int
  shardSize :: int
  shards :: "Shard list"

section \<open>The JavaScript built-ins the code relies on\<close>

text \<open>
  The value of a division of two integers followed by \<open>Math.ceil\<close> or \<open>Math.floor\<close>:
  an integer when the divisor is not zero, otherwise \<open>Infinity\<close>, \<open>-Infinity\<close> or
  \<open>NaN\<close>.
\<close>

datatype js_num = Finite int | Infinity | NegInfinity | NaN

text \<open>\<open>Math.ceil(a / b)\<close>\<close>

definition js_ceil_div :: "int \<Rightarrow> int \<Rightarrow> js_num" where
  "js_ceil_div a b =
     (if b = 0 then (if a = 0 then NaN else if 0 < a then Infinity else NegInfinity)
      else Finite (- ((- a) div b)))"

text \<open>\<open>Math.floor(a / b)\<close>\<close>

definition js_floor_div :: "int \<Rightarrow> int \<Rightarrow> js_num" where
  "js_floor_div a b =
     (if b = 0 then (if a = 0 then NaN else if 0 < a then Infinity else NegInfinity)
      else Finite (a div b))"

text \<open>The comparison \<open>a < b\<close> of two numbers; every comparison with \<open>NaN\<close> is false.\<close>

fun js_lt :: "js_num \<Rightarrow> js_num \<Rightarrow> bool" where
  "js_lt (Finite a) (Finite b) = (a < b)"
| "js_lt (Finite a) Infinity = True"
| "js_lt NegInfinity (Finite b) = True"
| "js_lt NegInfinity Infinity = True"
| "js_lt _ _ = False"

text \<open>
  \<open>Array.prototype.slice(start, end)\<close>: a negative index counts from the end of the
  array, both indices are clamped to the array, and an empty window gives the empty array.
\<close>

definition js_slice :: "'a list \<Rightarrow> int \<Rightarrow> int \<Rightarrow> 'a list" where
  "js_slice xs start end' =
     (let len = int (length xs);
          k = (if start < 0 then max (len + start) 0 else min start len);
          final = (if end' < 0 then max (len + end') 0 else min end' len)
      in take (nat (final - k)) (drop (nat k) xs))"

section \<open>The worker (workers/data-worker.worker.ts)\<close>

subsection \<open>shardData\<close>

text \<open>
  The \<open>for\<close> loop of \<open>shardData\<close>, with the loop variable \<open>shardId\<close> and the array
  \<open>shards\<close> it pushes to as arguments. The bound \<open>numberOfShards\<close> is \<open>Infinity\<close>
  when \<open>shardSize\<close> is zero and there are rows; the loop then never ends, which is the
  value \<open>None\<close>. Parameters are primed where the source's name is a field of a record.
\<close>

partial_function (option) shardData_loop ::
  "InputGroup list \<Rightarrow> InputRow list \<Rightarrow> int \<Rightarrow> js_num \<Rightarrow> int \<Rightarrow> Shard list \<Rightarrow> Shard list option"
where
  "shardData_loop groups' rows' shardSize' numberOfShards shardId' shards' =
     (if js_lt (Finite shardId') numberOfShards then
        (let start = shardId' * shardSize';
             end' = start + shardSize';
             shardRows = js_slice rows' start end';
             shardGroups =
               filter (\<lambda>group. length (rows group) > 0)
                 (map (\<lambda>group.
                         \<lparr>groupName = groupName group,
                          rows = filter (\<lambda>row. list_ex (\<lambda>gRow. id_row gRow = id_row row)
                                                  (rows group)) shardRows\<rparr>)
                      groups')
         in shardData_loop groups' rows' shardSize' numberOfShards (shardId' + 1)
              (shards' @ [\<lparr>shardId = shardId', groups = shardGroups\<rparr>]))
      else Some shards')"

definition shardData :: "InputGroup list \<Rightarrow> int \<Rightarrow> Shard list option" where
  "shardData groups' shardSize' =
     (let rows' = foldl (\<lambda>acc group. acc @ rows group) [] groups';
          totalRows' = int (length rows');
          numberOfShards = js_ceil_div totalRows' shardSize'
      in shardData_loop groups' rows' shardSize' numberOfShards 0 [])"

subsection \<open>getShard\<close>

definition getShard :: "int \<Rightarrow> int \<Rightarrow> InputGroup list \<Rightarrow> Shard" where
  "getShard shardId' shardSize' groups' =
     (let start = shardId' * shardSize';
          end' = start + shardSize';
          rows' = js_slice (foldl (\<lambda>acc group. acc @ rows group) [] groups') start end';
          shardGroups =
            filter (\<lambda>group. length (rows group) > 0)
              (map (\<lambda>group.
                      \<lparr>groupName = groupName group,
                       rows = filter (\<lambda>row. list_ex (\<lambda>gRow. id_row gRow = id_row row)
                                               (rows group)) rows'\<rparr>)
                   groups')
      in \<lparr>shardId = shardId', groups = shardGroups\<rparr>)"

subsection \<open>The message handler\<close>






section \<open>The storage service\<close>

text \<open>
  \<open>DataStorageService.getShard\<close> awaits the database and returns
  \<open>db.get('input-shards', shardId)\<close>. The database is IndexedDB behind the \<open>idb\<close>
  library and is not part of the program, so it is a parameter: \<open>db_get\<close> gives, for each
  key, either the stored shard (\<open>None\<close> for \<open>undefined\<close>, no such key) or a rejection.
\<close>

datatype 'a Promise = Resolves 'a | Rejects

record DataStorageService =
  db_get :: "js_num \<Rightarrow> Shard option Promise"

definition getShard_service :: "DataStorageService \<Rightarrow> js_num \<Rightarrow> Shard option Promise" where
  "getShard_service svc shardId' = db_get svc shardId'"

section \<open>The component (components/grouped-input/grouped-input.component.ts)\<close>

text \<open>
  The fields of \<open>GroupedInputComponent\<close>. \<open>loads\<close> is not a field of the class: it is
  the trace of the calls the component has made to \<open>dataStorageService.getShard\<close>, oldest
  first, so that "a shard load is issued" is a statement about the state.
  Each \<open>async\<close> method runs to its end before the next call starts; it returns the state it
  leaves and whether its promise resolved.
\<close>

record GroupedInputComponent =
  shardedInputGroups :: ShardedInputGroups
  currentPage :: int
  rowsPerPage :: int
  currentShard :: "Shard option"
  dataStorageService :: DataStorageService
  loads :: "js_num list"

datatype Outcome = Resolved | Rejected

text \<open>The field initialisers and the constructor.\<close>

definition GroupedInputComponent_new :: "DataStorageService \<Rightarrow> GroupedInputComponent" where
  "GroupedInputComponent_new svc =
     \<lparr>shardedInputGroups = \<lparr>totalRows = 0, shardSize = 1000, shards = []\<rparr>,
      currentPage = 1,
      rowsPerPage = 10,
      currentShard = None,
      dataStorageService = svc,
      loads = []\<rparr>"

definition loadShard :: "js_num \<Rightarrow> GroupedInputComponent \<Rightarrow> Outcome \<times> GroupedInputComponent" where
  "loadShard shardId' c =
     (case getShard_service (dataStorageService c) shardId' of
        Resolves sh \<Rightarrow> (Resolved, c\<lparr>currentShard := sh, loads := loads c @ [shardId']\<rparr>)
      | Rejects \<Rightarrow> (Rejected, c\<lparr>loads := loads c @ [shardId']\<rparr>))"

definition initialize :: "GroupedInputComponent \<Rightarrow> Outcome \<times> GroupedInputComponent" where
  "initialize c = loadShard (Finite 0) c"

text \<open>\<open>ngOnInit\<close> does not await \<open>initialize\<close> and returns nothing.\<close>

definition ngOnInit :: "GroupedInputComponent \<Rightarrow> GroupedInputComponent" where
  "ngOnInit c = snd (initialize c)"

text \<open>
  \<open>x !== this.currentShard?.shardId\<close>: true when there is no current shard, the right
  side being \<open>undefined\<close> then.
\<close>

definition differs :: "js_num \<Rightarrow> Shard option \<Rightarrow> bool" where
  "differs x sh = (case sh of None \<Rightarrow> True | Some s \<Rightarrow> x \<noteq> Finite (shardId s))"

definition nextPage :: "GroupedInputComponent \<Rightarrow> Outcome \<times> GroupedInputComponent" where
  "nextPage c =
     (let nextPageShardId =
            js_floor_div (currentPage c * rowsPerPage c) (shardSize (shardedInputGroups c))
      in case (if differs nextPageShardId (currentShard c)
               then loadShard nextPageShardId c else (Resolved, c)) of
           (Rejected, c') \<Rightarrow> (Rejected, c')
         | (Resolved, c') \<Rightarrow> (Resolved, c'\<lparr>currentPage := currentPage c' + 1\<rparr>))"

definition prevPage :: "GroupedInputComponent \<Rightarrow> Outcome \<times> GroupedInputComponent" where
  "prevPage c =
     (if currentPage c > 1 then
        (let c1 = c\<lparr>currentPage := currentPage c - 1\<rparr>;
             prevPageShardId =
               js_floor_div ((currentPage c1 - 1) * rowsPerPage c1)
                 (shardSize (shardedInputGroups c1))
         in if differs prevPageShardId (currentShard c1)
            then loadShard prevPageShardId c1 else (Resolved, c1))
      else (Resolved, c))"

definition setRowsPerPage :: "int \<Rightarrow> GroupedInputComponent \<Rightarrow> Outcome \<times> GroupedInputComponent" where
  "setRowsPerPage rows' c = loadShard (Finite 0) (c\<lparr>rowsPerPage := rows', currentPage := 1\<rparr>)"

text \<open>
  The public methods as calls, and a run of calls from a state. A rejected promise leaves
  the state as the method left it.
\<close>

datatype Call = NgOnInit | Initialize | LoadShard int | NextPage | PrevPage | SetRowsPerPage int

fun call :: "Call \<Rightarrow> GroupedInputComponent \<Rightarrow> GroupedInputComponent" where
  "call NgOnInit c = ngOnInit c"
| "call Initialize c = snd (initialize c)"
| "call (LoadShard k) c = snd (loadShard (Finite k) c)"
| "call NextPage c = snd (nextPage c)"
| "call PrevPage c = snd (prevPage c)"
| "call (SetRowsPerPage n) c = snd (setRowsPerPage n c)"

definition run :: "Call list \<Rightarrow> GroupedInputComponent \<Rightarrow> GroupedInputComponent" where
  "run calls c = foldl (\<lambda>c' x. call x c') c calls"

section \<open>Notions of the specification\<close>

text \<open>The flattened row sequence: all groups' rows in source order.\<close>

definition flattened :: "InputGroup list \<Rightarrow> InputRow list" where
  "flattened gs = concat (map rows gs)"

text \<open>The number of rows of a shard, over all its groups.\<close>

definition rowCount :: "Shard \<Rightarrow> nat" where
  "rowCount sh = sum_list (map (\<lambda>g. length (rows g)) (groups sh))"

text \<open>All rows of a shard, group after group.\<close>

definition shardRowsOf :: "Shard \<Rightarrow> InputRow list" where
  "shardRowsOf sh = concat (map rows (groups sh))"

text \<open>
  The rows of a window that a group keeps, and the groups built from a window; both
  \<open>shardData\<close> and \<open>getShard\<close> compute them in place.
\<close>

definition rowsOfGroup :: "InputGroup \<Rightarrow> InputRow list \<Rightarrow> InputRow list" where
  "rowsOfGroup g sr = filter (\<lambda>row. list_ex (\<lambda>gRow. id_row gRow = id_row row) (rows g)) sr"

definition groupsOfRows :: "InputGroup list \<Rightarrow> InputRow list \<Rightarrow> InputGroup list" where
  "groupsOfRows gs sr =
     filter (\<lambda>group. length (rows group) > 0)
       (map (\<lambda>group. \<lparr>groupName = groupName group, rows = rowsOfGroup group sr\<rparr>) gs)"

section \<open>Example data\<close>

text \<open>
  Three groups of 4, 3 and 5 rows, with the ids 0 to 11 in flattened order (Scenario A of
  the specification).
\<close>

definition exampleRow :: "int \<Rightarrow> InputRow" where
  "exampleRow i =
     \<lparr>id_row = i, vmName = ''vm'', ipAddress = ''10.0.0.1'',
      subnetMask = ''255.255.255.0'', defaultGateway = ''10.0.0.254''\<rparr>"

definition exampleGroups :: "InputGroup list" where
  "exampleGroups =
     [\<lparr>groupName = ''group1'', rows = map exampleRow [0, 1, 2, 3]\<rparr>,
      \<lparr>groupName = ''group2'', rows = map exampleRow [4, 5, 6]\<rparr>,
      \<lparr>groupName = ''group3'', rows = map exampleRow [7, 8, 9, 10, 11]\<rparr>]"

text \<open>Two groups of 3 and 2 rows, five rows in all.\<close>

definition fiveRows :: "InputGroup list" where
  "fiveRows =
     [\<lparr>groupName = ''a'', rows = map exampleRow [0, 1, 2]\<rparr>,
      \<lparr>groupName = ''b'', rows = map exampleRow [3, 4]\<rparr>]"

text \<open>
  A storage service holding the shards 0 and 1 and rejecting the key \<open>NaN\<close>, the
  component after \<open>ngOnInit\<close> on it, the same component on page 101 with shard 1
  loaded, and a message with a payload for either action.
\<close>

definition exampleService :: DataStorageService where
  "exampleService =
     \<lparr>db_get = (\<lambda>k. case k of
                      Finite i \<Rightarrow> if i = 0 \<or> i = 1
                                  then Resolves (Some \<lparr>shardId = i, groups = []\<rparr>)
                                  else Resolves None
                    | NaN \<Rightarrow> Rejects
                    | _ \<Rightarrow> Resolves None)\<rparr>"

definition exampleComponent :: GroupedInputComponent where
  "exampleComponent = ngOnInit (GroupedInputComponent_new exampleService)"

definition examplePage101 :: GroupedInputComponent where
  "examplePage101 =
     exampleComponent\<lparr>currentPage := 101, currentShard := Some \<lparr>shardId = 1, groups = []\<rparr>\<rparr>"


section \<open>Facts about the built-ins\<close>

lemma foldl_rows_append:
  "foldl (\<lambda>acc group. acc @ rows group) acc gs = acc @ concat (map rows gs)"
  by (induction gs arbitrary: acc) simp_all

lemma reduce_flattened:
  "foldl (\<lambda>acc group. acc @ rows group) [] gs = flattened gs"
  by (simp add: foldl_rows_append flattened_def)

lemma set_flattened: "set (flattened gs) = (\<Union>g\<in>set gs. set (rows g))"
  by (simp add: flattened_def)

lemma js_slice_window:
  "\<exists>m k. js_slice xs a b = take m (drop k xs)"
  unfolding js_slice_def Let_def by blast

lemma set_js_slice: "set (js_slice xs a b) \<subseteq> set xs"
  unfolding js_slice_def Let_def
  by (meson set_take_subset set_drop_subset subset_trans)

lemma js_slice_nonneg:
  "0 \<le> a \<Longrightarrow> 0 \<le> b \<Longrightarrow> js_slice xs a (a + b) = take (nat b) (drop (nat a) xs)"
  unfolding js_slice_def Let_def
  by (cases "a \<le> int (length xs)") (simp_all add: min_def nat_le_iff)

lemma js_slice_shard:
  "0 < s \<Longrightarrow> js_slice xs (int i * s) (int i * s + s) = take (nat s) (drop (i * nat s) xs)"
  using js_slice_nonneg[of "int i * s" s xs]
  by (simp add: nat_mult_distrib)

lemma js_slice_beyond:
  assumes "0 \<le> b" and "int (length xs) \<le> a"
  shows "js_slice xs a (a + b) = []"
proof -
  from assms have "0 \<le> a" by linarith
  moreover from assms have "length xs \<le> nat a" by linarith
  ultimately show ?thesis
    using assms(1) by (simp add: js_slice_nonneg)
qed

lemma ceiling_rows:
  "\<lceil>real n / real_of_int s\<rceil> = - ((- int n) div s)"
  using ceiling_divide_eq_div[of "int n" s, where ?'a = real] by simp

lemma ceil_div_covers:
  assumes "0 < s"
  shows "int n \<le> int (nat (- ((- int n) div s))) * s"
proof -
  define q where "q = (- int n) div s"
  have "q * s + (- int n) mod s = - int n"
    unfolding q_def by simp
  moreover have "0 \<le> (- int n) mod s"
    using assms by simp
  ultimately have le: "int n \<le> - (q * s)" by linarith
  have "q \<le> 0"
    unfolding q_def using assms by (simp add: div_nonpos_pos_le0)
  then have "int (nat (- q)) = - q" by simp
  with le show ?thesis
    unfolding q_def by simp
qed

lemma ceil_div_nonneg:
  "0 < s \<Longrightarrow> 0 \<le> - ((- int n) div s)"
  by (simp add: div_nonpos_pos_le0)

lemma concat_windows:
  "concat (map (\<lambda>k. take s (drop (k * s) xs)) [0..<n]) = take (n * s) xs"
proof (induction n)
  case 0
  then show ?case by simp
next
  case (Suc n)
  have "take (n * s) xs @ take s (drop (n * s) xs) = take (n * s + s) xs"
    by (simp add: take_add)
  with Suc show ?case by (simp add: add.commute)
qed

lemma ceil_div_one:
  assumes "0 < n" and "int n < s"
  shows "- ((- int n) div s) = 1"
proof -
  have "- int n = s * (- 1) + (s - int n)" by simp
  moreover have "0 \<le> s - int n" "s - int n < s"
    using assms by simp_all
  ultimately have "(- int n) div s = - 1"
    by (rule int_div_pos_eq)
  then show ?thesis by simp
qed

lemma js_slice_all:
  assumes "int (length xs) \<le> s"
  shows "js_slice xs (0 * s) (0 * s + s) = xs"
proof -
  have "0 \<le> s" using assms by linarith
  then have "js_slice xs 0 (0 + s) = take (nat s) (drop (nat 0) xs)"
    by (intro js_slice_nonneg) simp_all
  with assms show ?thesis by simp
qed

lemma five_window:
  assumes "length xs = 5"
  shows "js_slice xs (- 2 * 2) (- 2 * 2 + 2) = [xs ! 1, xs ! 2]"
proof -
  from assms obtain a b c d e where "xs = [a, b, c, d, e]"
    by (auto simp: numeral_eq_Suc length_Suc_conv)
  then show ?thesis
    by (simp add: js_slice_def Let_def)
qed

lemma window_append:
  "take m (drop k (xs @ ys)) =
   take m (drop k xs) @ take (m - (length xs - k)) (drop (k - length xs) ys)"
  by simp

section \<open>The loop of shardData\<close>

lemma shardData_loop_finite:
  "0 \<le> k \<Longrightarrow>
   shardData_loop gs (foldl (\<lambda>acc group. acc @ rows group) [] gs) s (Finite n) k acc =
     Some (acc @ map (\<lambda>i. getShard (int i) s gs) [nat k..<nat n])"
proof (induction "nat (n - k)" arbitrary: k acc)
  case 0
  then have "\<not> k < n" by simp
  then show ?case
    by (subst shardData_loop.simps) simp
next
  case (Suc m)
  then have lt: "k < n" by linarith
  from Suc have m: "m = nat (n - (k + 1))" by linarith
  have step: "[nat k..<nat n] = nat k # [nat (k + 1)..<nat n]"
    using lt Suc.prems by (simp add: upt_conv_Cons nat_add_distrib)
  have k: "int (nat k) = k" using Suc.prems by simp
  show ?case
    apply (subst shardData_loop.simps)
    using lt Suc.prems Suc.hyps(1)[OF m, of "acc @ [getShard k s gs]"]
    apply (simp add: step k Let_def getShard_def)
    done
qed

lemma shardData_pos:
  "0 < s \<Longrightarrow>
   shardData gs s =
     Some (map (\<lambda>i. getShard (int i) s gs)
            [0..<nat (- ((- int (length (flattened gs))) div s))])"
  using shardData_loop_finite[of 0 gs s _ "[]"]
  by (simp add: shardData_def js_ceil_div_def Let_def reduce_flattened)







section \<open>The groups of a window\<close>

lemma getShard_groups:
  "groups (getShard k s gs) = groupsOfRows gs (js_slice (flattened gs) (k * s) (k * s + s))"
  by (simp add: getShard_def groupsOfRows_def rowsOfGroup_def reduce_flattened Let_def)

lemma getShard_shardId: "shardId (getShard k s gs) = k"
  by (simp add: getShard_def Let_def)

lemma list_ex_id_row:
  "list_ex (\<lambda>gRow. id_row gRow = id_row r) xs = (id_row r \<in> id_row ` set xs)"
  by (induction xs) auto

lemma rowsOfGroup_eq:
  "rowsOfGroup g sr = filter (\<lambda>r. id_row r \<in> id_row ` set (rows g)) sr"
  by (simp add: rowsOfGroup_def list_ex_id_row)

lemma groupsOfRows_nonempty: "g \<in> set (groupsOfRows gs sr) \<Longrightarrow> rows g \<noteq> []"
  by (auto simp: groupsOfRows_def)

lemma groupsOfRows_Nil: "groupsOfRows gs [] = []"
  by (induction gs) (simp_all add: groupsOfRows_def rowsOfGroup_def)

lemma sum_nonempty_groups:
  "sum_list (map (\<lambda>g. length (rows g)) (filter (\<lambda>g. rows g \<noteq> []) xs)) =
   sum_list (map (\<lambda>g. length (rows g)) xs)"
  by (induction xs) simp_all

lemma concat_nonempty_groups:
  "concat (map rows (filter (\<lambda>g. rows g \<noteq> []) xs)) = concat (map rows xs)"
  by (induction xs) simp_all

lemma rows_groupsOfRows:
  "concat (map rows (groupsOfRows gs sr)) = concat (map (\<lambda>g. rowsOfGroup g sr) gs)"
  unfolding groupsOfRows_def
  by (simp add: concat_nonempty_groups comp_def)

lemma owner_count:
  "distinct (map id_row (flattened gs)) \<Longrightarrow> r \<in> set (flattened gs) \<Longrightarrow>
   (\<Sum>g\<leftarrow>gs. if id_row r \<in> id_row ` set (rows g) then 1 else 0) = (1::nat)"
proof (induction gs)
  case Nil
  then show ?case by (simp add: flattened_def)
next
  case (Cons g gs)
  from Cons.prems(1) have d: "distinct (map id_row (flattened gs))"
    and disj: "id_row ` set (rows g) \<inter> id_row ` set (flattened gs) = {}"
    by (simp_all add: flattened_def)
  show ?case
  proof (cases "id_row r \<in> id_row ` set (rows g)")
    case True
    with disj have "\<forall>g'\<in>set gs. id_row r \<notin> id_row ` set (rows g')"
      unfolding set_flattened by blast
    then have "(\<Sum>g\<leftarrow>gs. if id_row r \<in> id_row ` set (rows g) then 1 else 0) = (0::nat)"
      by (induction gs) simp_all
    with True show ?thesis by simp
  next
    case False
    with Cons.prems(2) have "r \<in> set (flattened gs)"
      by (auto simp: flattened_def)
    with Cons.IH d False show ?thesis by simp
  qed
qed

lemma sum_rowsOfGroup:
  "distinct (map id_row (flattened gs)) \<Longrightarrow> set sr \<subseteq> set (flattened gs) \<Longrightarrow>
   (\<Sum>g\<leftarrow>gs. length (rowsOfGroup g sr)) = length sr"
proof (induction sr)
  case Nil
  then show ?case by (simp add: rowsOfGroup_def)
next
  case (Cons r sr)
  have "(\<Sum>g\<leftarrow>gs. length (rowsOfGroup g (r # sr))) =
        (\<Sum>g\<leftarrow>gs. (if id_row r \<in> id_row ` set (rows g) then 1 else 0) + length (rowsOfGroup g sr))"
    by (rule arg_cong[where f = sum_list], rule map_cong) (simp_all add: rowsOfGroup_eq)
  also have "\<dots> = (\<Sum>g\<leftarrow>gs. if id_row r \<in> id_row ` set (rows g) then 1 else 0) +
                   (\<Sum>g\<leftarrow>gs. length (rowsOfGroup g sr))"
    by (simp add: sum_list_addf)
  finally show ?case
    using Cons owner_count[of gs r] by simp
qed

lemma rowCount_groupsOfRows:
  "distinct (map id_row (flattened gs)) \<Longrightarrow> set sr \<subseteq> set (flattened gs) \<Longrightarrow>
   sum_list (map (\<lambda>g. length (rows g)) (groupsOfRows gs sr)) = length sr"
  using sum_rowsOfGroup[of gs sr]
  unfolding groupsOfRows_def
  by (simp add: sum_nonempty_groups comp_def)

lemma rowCount_getShard:
  "distinct (map id_row (flattened gs)) \<Longrightarrow>
   rowCount (getShard k s gs) = length (js_slice (flattened gs) (k * s) (k * s + s))"
  unfolding rowCount_def getShard_groups
  by (rule rowCount_groupsOfRows) (simp_all add: set_js_slice)

lemma set_rowsOfGroup:
  "set (rowsOfGroup g sr) = {r \<in> set sr. id_row r \<in> id_row ` set (rows g)}"
  by (simp add: rowsOfGroup_eq)

lemma set_rows_groupsOfRows:
  assumes "set sr \<subseteq> set (flattened gs)"
  shows "set (concat (map rows (groupsOfRows gs sr))) = set sr"
proof
  show "set (concat (map rows (groupsOfRows gs sr))) \<subseteq> set sr"
    by (auto simp: rows_groupsOfRows set_rowsOfGroup)
next
  show "set sr \<subseteq> set (concat (map rows (groupsOfRows gs sr)))"
  proof
    fix r assume r: "r \<in> set sr"
    with assms obtain g where g: "g \<in> set gs" "r \<in> set (rows g)"
      unfolding set_flattened by blast
    then have "r \<in> set (rowsOfGroup g sr)"
      using r by (simp add: set_rowsOfGroup)
    with g(1) show "r \<in> set (concat (map rows (groupsOfRows gs sr)))"
      unfolding rows_groupsOfRows by auto
  qed
qed

lemma set_shardRowsOf_getShard:
  "set (shardRowsOf (getShard k s gs)) = set (js_slice (flattened gs) (k * s) (k * s + s))"
  unfolding shardRowsOf_def getShard_groups
  by (rule set_rows_groupsOfRows) (rule set_js_slice)

lemma rowsOfGroup_append: "rowsOfGroup g (xs @ ys) = rowsOfGroup g xs @ rowsOfGroup g ys"
  by (simp add: rowsOfGroup_def)

lemma rowsOfGroup_own:
  "set sr \<subseteq> set (rows g) \<Longrightarrow> rowsOfGroup g sr = sr"
  by (auto simp: rowsOfGroup_eq filter_id_conv)

lemma rowsOfGroup_foreign:
  "id_row ` set sr \<inter> id_row ` set (rows g) = {} \<Longrightarrow> rowsOfGroup g sr = []"
  by (auto simp: rowsOfGroup_eq filter_empty_conv)

lemma rows_of_window:
  "distinct (map id_row (flattened gs)) \<Longrightarrow>
   concat (map (\<lambda>g. rowsOfGroup g (take m (drop k (flattened gs)))) gs) =
   take m (drop k (flattened gs))"
proof (induction gs arbitrary: m k)
  case Nil
  then show ?case by (simp add: flattened_def)
next
  case (Cons g gs)
  let ?F = "flattened gs"
  let ?w1 = "take m (drop k (rows g))"
  let ?w2 = "take (m - (length (rows g) - k)) (drop (k - length (rows g)) ?F)"
  have fl: "flattened (g # gs) = rows g @ ?F"
    by (simp add: flattened_def)
  from Cons.prems have d: "distinct (map id_row ?F)"
    and disj: "id_row ` set (rows g) \<inter> id_row ` set ?F = {}"
    by (simp_all add: fl)
  have w: "take m (drop k (flattened (g # gs))) = ?w1 @ ?w2"
    unfolding fl by (rule window_append)
  have s1: "set ?w1 \<subseteq> set (rows g)"
    by (meson set_take_subset set_drop_subset subset_trans)
  have s2: "set ?w2 \<subseteq> set ?F"
    by (meson set_take_subset set_drop_subset subset_trans)
  have own: "rowsOfGroup g (?w1 @ ?w2) = ?w1"
  proof -
    have "id_row ` set ?w2 \<inter> id_row ` set (rows g) = {}"
      using s2 disj by blast
    then show ?thesis
      by (simp add: rowsOfGroup_append rowsOfGroup_own[OF s1] rowsOfGroup_foreign)
  qed
  have rest: "map (\<lambda>g'. rowsOfGroup g' (?w1 @ ?w2)) gs = map (\<lambda>g'. rowsOfGroup g' ?w2) gs"
  proof (rule map_cong[OF refl])
    fix g' assume "g' \<in> set gs"
    then have "set (rows g') \<subseteq> set ?F"
      unfolding set_flattened by blast
    with s1 disj have "id_row ` set ?w1 \<inter> id_row ` set (rows g') = {}"
      by blast
    then show "rowsOfGroup g' (?w1 @ ?w2) = rowsOfGroup g' ?w2"
      by (simp add: rowsOfGroup_append rowsOfGroup_foreign)
  qed
  have ih: "concat (map (\<lambda>g'. rowsOfGroup g' ?w2) gs) = ?w2"
    using Cons.IH[OF d] .
  have "concat (map (\<lambda>g'. rowsOfGroup g' (?w1 @ ?w2)) (g # gs)) =
        rowsOfGroup g (?w1 @ ?w2) @ concat (map (\<lambda>g'. rowsOfGroup g' (?w1 @ ?w2)) gs)"
    by simp
  also have "\<dots> = ?w1 @ concat (map (\<lambda>g'. rowsOfGroup g' ?w2) gs)"
    by (simp only: own rest)
  also have "\<dots> = ?w1 @ ?w2"
    by (simp only: ih)
  finally show ?case
    unfolding w .
qed

lemma shardRowsOf_getShard:
  assumes "distinct (map id_row (flattened gs))"
  shows "shardRowsOf (getShard k s gs) = js_slice (flattened gs) (k * s) (k * s + s)"
proof -
  obtain m j where "js_slice (flattened gs) (k * s) (k * s + s) = take m (drop j (flattened gs))"
    using js_slice_window by blast
  then show ?thesis
    unfolding shardRowsOf_def getShard_groups rows_groupsOfRows
    using rows_of_window[OF assms, of m j] by simp
qed

section \<open>The example data\<close>

lemma flattened_exampleGroups:
  "flattened exampleGroups = map exampleRow [0, 1, 2, 3, 4, 5, 6, 7, 8, 9, 10, 11]"
  by (simp add: flattened_def exampleGroups_def)

lemma length_exampleGroups: "length (flattened exampleGroups) = 12"
  by (simp add: flattened_exampleGroups)


lemma distinct_exampleGroups: "distinct (map id_row (flattened exampleGroups))"
  by (simp add: flattened_exampleGroups exampleRow_def)

lemma flattened_fiveRows: "flattened fiveRows = map exampleRow [0, 1, 2, 3, 4]"
  by (simp add: flattened_def fiveRows_def)

lemma length_fiveRows: "length (flattened fiveRows) = 5"
  by (simp add: flattened_fiveRows)

lemma nonempty_fiveRows: "flattened fiveRows \<noteq> []"
  by (simp add: flattened_fiveRows)

lemma distinct_fiveRows: "distinct (map id_row (flattened fiveRows))"
  by (simp add: flattened_fiveRows exampleRow_def)

lemma getShard_fiveRows:
  "getShard (- 2) 2 fiveRows =
     \<lparr>shardId = - 2, groups = [\<lparr>groupName = ''a'', rows = map exampleRow [1, 2]\<rparr>]\<rparr>"
  by (simp add: getShard_def fiveRows_def exampleRow_def js_slice_def Let_def)

lemma getShard_exampleGroups_0:
  "getShard 0 5 exampleGroups =
     \<lparr>shardId = 0,
      groups = [\<lparr>groupName = ''group1'', rows = map exampleRow [0, 1, 2, 3]\<rparr>,
                \<lparr>groupName = ''group2'', rows = map exampleRow [4]\<rparr>]\<rparr>"
  by (simp add: getShard_def exampleGroups_def exampleRow_def js_slice_def Let_def)

lemma getShard_exampleGroups_1:
  "getShard 1 5 exampleGroups =
     \<lparr>shardId = 1,
      groups = [\<lparr>groupName = ''group2'', rows = map exampleRow [5, 6]\<rparr>,
                \<lparr>groupName = ''group3'', rows = map exampleRow [7, 8, 9]\<rparr>]\<rparr>"
  by (simp add: getShard_def exampleGroups_def exampleRow_def js_slice_def Let_def)

lemma getShard_exampleGroups_2:
  "getShard 2 5 exampleGroups =
     \<lparr>shardId = 2,
      groups = [\<lparr>groupName = ''group3'', rows = map exampleRow [10, 11]\<rparr>]\<rparr>"
  by (simp add: getShard_def exampleGroups_def exampleRow_def js_slice_def Let_def)

lemma shardData_exampleGroups:
  "shardData exampleGroups 5 =
     Some [getShard 0 5 exampleGroups, getShard 1 5 exampleGroups, getShard 2 5 exampleGroups]"
proof -
  have "[0..<3] = [0, 1, 2]" by (simp add: upt_conv_Cons)
  then show ?thesis
    using shardData_pos[of 5 exampleGroups] by (simp add: length_exampleGroups)
qed

lemma shardData_empty: "shardData [] 1 = Some []"
  using shardData_pos[of 1 "[]"] by (simp add: flattened_def)

section \<open>Facts about the component\<close>

lemma run_Nil: "run [] c = c"
  by (simp add: run_def)

lemma run_snoc: "run (xs @ [x]) c = call x (run xs c)"
  by (simp add: run_def)

lemma run_replicate_Suc: "run (replicate (Suc n) x) c = call x (run (replicate n x) c)"
proof -
  have "replicate (Suc n) x = replicate n x @ [x]"
    by (simp add: replicate_append_same)
  then show ?thesis
    by (simp only: run_snoc)
qed

lemma loadShard_currentPage: "currentPage (snd (loadShard k c)) = currentPage c"
  by (simp add: loadShard_def split: Promise.split)

lemma loadShard_rowsPerPage: "rowsPerPage (snd (loadShard k c)) = rowsPerPage c"
  by (simp add: loadShard_def split: Promise.split)

lemma loadShard_loads: "loads (snd (loadShard k c)) = loads c @ [k]"
  by (simp add: loadShard_def split: Promise.split)

lemma loadShard_currentShard:
  "currentShard (snd (loadShard k c)) =
     (case db_get (dataStorageService c) k of Resolves sh \<Rightarrow> sh | Rejects \<Rightarrow> currentShard c)"
  by (simp add: loadShard_def getShard_service_def split: Promise.split)

lemma nextPage_same_shard:
  assumes "\<not> differs (js_floor_div (currentPage c * rowsPerPage c)
              (shardSize (shardedInputGroups c))) (currentShard c)"
  shows "nextPage c = (Resolved, c\<lparr>currentPage := currentPage c + 1\<rparr>)"
  using assms by (simp add: nextPage_def Let_def)

lemma nextPage_other_shard:
  assumes "differs (js_floor_div (currentPage c * rowsPerPage c)
              (shardSize (shardedInputGroups c))) (currentShard c)"
  shows "loads (snd (nextPage c)) =
           loads c @ [js_floor_div (currentPage c * rowsPerPage c)
              (shardSize (shardedInputGroups c))]"
  using assms
  by (simp add: nextPage_def Let_def loadShard_def split: Promise.split)

lemma target_below_100:
  assumes "1 \<le> p" and "p \<le> 99"
  shows "js_floor_div (p * 10) 1000 = Finite 0"
proof -
  have "0 \<le> p * 10" "p * 10 < 1000" using assms by simp_all
  then have "(p * 10) div 1000 = 0" by (rule div_pos_pos_trivial)
  then show ?thesis by (simp add: js_floor_div_def)
qed

lemma ninety_nine_pages:
  assumes "rowsPerPage c = 10" and "shardSize (shardedInputGroups c) = 1000"
    and "currentPage c = 1" and "currentShard c = Some sh" and "shardId sh = 0"
  shows "n \<le> 99 \<Longrightarrow> run (replicate n NextPage) c = c\<lparr>currentPage := 1 + int n\<rparr>"
proof (induction n)
  case 0
  then show ?case using assms(3) by (simp add: run_Nil)
next
  case (Suc n)
  let ?c = "c\<lparr>currentPage := 1 + int n\<rparr>"
  from Suc have run: "run (replicate n NextPage) c = ?c" by simp
  have tb: "js_floor_div ((1 + int n) * 10) 1000 = Finite 0"
    using Suc.prems by (intro target_below_100) simp_all
  have sel: "currentPage ?c = 1 + int n" "rowsPerPage ?c = 10"
    "shardSize (shardedInputGroups ?c) = 1000"
    using assms(1,2) by simp_all
  have "js_floor_div (currentPage ?c * rowsPerPage ?c) (shardSize (shardedInputGroups ?c)) = Finite 0"
    by (simp only: sel tb)
  then have "\<not> differs (js_floor_div (currentPage ?c * rowsPerPage ?c)
              (shardSize (shardedInputGroups ?c))) (currentShard ?c)"
    using assms(4,5) by (simp add: differs_def)
  then have "nextPage ?c = (Resolved, ?c\<lparr>currentPage := currentPage ?c + 1\<rparr>)"
    by (rule nextPage_same_shard)
  then show ?case
    unfolding run_replicate_Suc run by (simp add: add.commute)
qed

lemma call_currentPage_ge1: "1 \<le> currentPage c \<Longrightarrow> 1 \<le> currentPage (call x c)"
  by (cases x)
     (auto simp: ngOnInit_def initialize_def nextPage_def prevPage_def setRowsPerPage_def
        loadShard_def Let_def split: Promise.split prod.split Outcome.split)

lemma run_currentPage_ge1: "1 \<le> currentPage c \<Longrightarrow> 1 \<le> currentPage (run calls c)"
proof (induction calls rule: rev_induct)
  case Nil
  then show ?case by (simp add: run_Nil)
next
  case (snoc x xs)
  then show ?case by (simp add: run_snoc call_currentPage_ge1)
qed

lemma exampleComponent_eq:
  "exampleComponent =
     \<lparr>shardedInputGroups = \<lparr>totalRows = 0, shardSize = 1000, shards = []\<rparr>,
      currentPage = 1, rowsPerPage = 10,
      currentShard = Some \<lparr>shardId = 0, groups = []\<rparr>,
      dataStorageService = exampleService, loads = [Finite 0]\<rparr>"
  by (simp add: exampleComponent_def ngOnInit_def initialize_def loadShard_def
      getShard_service_def GroupedInputComponent_new_def exampleService_def)

lemma examplePage101_eq:
  "examplePage101 =
     \<lparr>shardedInputGroups = \<lparr>totalRows = 0, shardSize = 1000, shards = []\<rparr>,
      currentPage = 101, rowsPerPage = 10,
      currentShard = Some \<lparr>shardId = 1, groups = []\<rparr>,
      dataStorageService = exampleService, loads = [Finite 0]\<rparr>"
  by (simp add: examplePage101_def exampleComponent_eq)

section \<open>Partition and Locator agree\<close>

text \<open>
  Claim C1. For every list of groups, every positive shard size and every shard id from 0
  to \<open>ceil(totalRows / shardSize) - 1\<close>, \<open>shardData\<close> returns, its list has
  \<open>ceil(totalRows / shardSize)\<close> shards, and the shard at index \<open>shardId\<close> is the
  one \<open>getShard\<close> computes.
\<close>

theorem getShard_eq_shardData_nth:
  assumes "0 < sz" and "0 \<le> sid"
    and "sid < \<lceil>real (length (flattened gs)) / real_of_int sz\<rceil>"
  shows "\<exists>shards'. shardData gs sz = Some shards' \<and>
           int (length shards') = \<lceil>real (length (flattened gs)) / real_of_int sz\<rceil> \<and>
           shards' ! nat sid = getShard sid sz gs"
proof -
  let ?n = "- ((- int (length (flattened gs))) div sz)"
  let ?shards = "map (\<lambda>i. getShard (int i) sz gs) [0..<nat ?n]"
  have sd: "shardData gs sz = Some ?shards"
    using assms(1) by (rule shardData_pos)
  have c: "\<lceil>real (length (flattened gs)) / real_of_int sz\<rceil> = ?n"
    by (rule ceiling_rows)
  have len: "int (length ?shards) = ?n"
    using ceil_div_nonneg[OF assms(1), of "length (flattened gs)"] by simp
  have lt: "nat sid < nat ?n"
    using assms(2,3) c by linarith
  then have "?shards ! nat sid = getShard sid sz gs"
    using assms(2) by simp
  with sd len c show ?thesis by simp
qed

theorem getShard_eq_shardData_nth_witness:
  "\<exists>shards'. shardData exampleGroups 5 = Some shards' \<and> int (length shards') = 3 \<and>
     shards' ! 1 = getShard 1 5 exampleGroups"
  using getShard_eq_shardData_nth[of 5 1 exampleGroups]
  by (simp add: length_exampleGroups)

section \<open>Row conservation\<close>

text \<open>
  Claim C2. When the row ids are unique over the whole input and the shard size is
  positive, the row counts of the shards \<open>shardData\<close> returns add up to the number of
  rows of the input.
\<close>

theorem shardData_row_conservation:
  assumes "distinct (map id_row (flattened gs))" and "0 < sz"
  shows "\<exists>shards'. shardData gs sz = Some shards' \<and>
           sum_list (map rowCount shards') = length (flattened gs) \<and>
           concat (map shardRowsOf shards') = flattened gs"
proof -
  let ?xs = "flattened gs"
  let ?n = "nat (- ((- int (length ?xs)) div sz))"
  let ?shards = "map (\<lambda>i. getShard (int i) sz gs) [0..<?n]"
  have sd: "shardData gs sz = Some ?shards"
    using assms(2) by (rule shardData_pos)
  have all: "take (?n * nat sz) ?xs = ?xs"
  proof -
    have "int (length ?xs) \<le> int ?n * sz"
      using assms(2) by (rule ceil_div_covers)
    also have "\<dots> = int (?n * nat sz)"
      using assms(2) by simp
    finally have "length ?xs \<le> ?n * nat sz" by linarith
    then show ?thesis by simp
  qed
  have "sum_list (map rowCount ?shards) =
        sum_list (map (\<lambda>i. length (take (nat sz) (drop (i * nat sz) ?xs))) [0..<?n])"
    using assms by (simp add: comp_def rowCount_getShard js_slice_shard)
  also have "\<dots> = length (concat (map (\<lambda>i. take (nat sz) (drop (i * nat sz) ?xs)) [0..<?n]))"
    by (simp add: length_concat comp_def)
  also have "\<dots> = length ?xs"
    by (simp only: concat_windows all)
  finally have count: "sum_list (map rowCount ?shards) = length ?xs" .
  have "concat (map shardRowsOf ?shards) =
        concat (map (\<lambda>i. take (nat sz) (drop (i * nat sz) ?xs)) [0..<?n])"
    using assms by (simp add: comp_def shardRowsOf_getShard js_slice_shard)
  also have "\<dots> = ?xs"
    by (simp only: concat_windows all)
  finally show ?thesis
    using sd count by simp
qed

theorem shardData_row_conservation_witness:
  "\<exists>shards'. shardData exampleGroups 5 = Some shards' \<and>
     sum_list (map rowCount shards') = 12 \<and>
     concat (map shardRowsOf shards') = map exampleRow [0, 1, 2, 3, 4, 5, 6, 7, 8, 9, 10, 11]"
proof -
  have "\<exists>shards'. shardData exampleGroups 5 = Some shards' \<and>
          sum_list (map rowCount shards') = length (flattened exampleGroups) \<and>
          concat (map shardRowsOf shards') = flattened exampleGroups"
    using shardData_row_conservation[OF distinct_exampleGroups, of 5] by simp
  then have "\<exists>shards'. shardData exampleGroups 5 = Some shards' \<and>
          sum_list (map rowCount shards') = 12 \<and>
          concat (map shardRowsOf shards') = flattened exampleGroups"
    by (simp only: length_exampleGroups)
  then show ?thesis
    by (simp only: flattened_exampleGroups)
qed

section \<open>No empty group\<close>

text \<open>
  Claim C3. No group of a shard has an empty row list: this holds for every shard
  \<open>shardData\<close> returns for a positive shard size, and for the shard \<open>getShard\<close>
  returns for any shard id and size.
\<close>

theorem no_empty_group:
  "(0 < sz \<longrightarrow>
      (\<exists>shards'. shardData gs sz = Some shards' \<and>
         (\<forall>sh \<in> set shards'. \<forall>g \<in> set (groups sh). rows g \<noteq> []))) \<and>
   (\<forall>g \<in> set (groups (getShard sid sz gs)). rows g \<noteq> [])"
proof (intro conjI impI)
  assume "0 < sz"
  then have "shardData gs sz =
      Some (map (\<lambda>i. getShard (int i) sz gs)
             [0..<nat (- ((- int (length (flattened gs))) div sz))])"
    by (rule shardData_pos)
  moreover have "\<forall>sh \<in> set (map (\<lambda>i. getShard (int i) sz gs)
             [0..<nat (- ((- int (length (flattened gs))) div sz))]).
           \<forall>g \<in> set (groups sh). rows g \<noteq> []"
    by (auto simp: getShard_groups dest: groupsOfRows_nonempty)
  ultimately show "\<exists>shards'. shardData gs sz = Some shards' \<and>
         (\<forall>sh \<in> set shards'. \<forall>g \<in> set (groups sh). rows g \<noteq> [])"
    by blast
next
  show "\<forall>g \<in> set (groups (getShard sid sz gs)). rows g \<noteq> []"
    by (auto simp: getShard_groups dest: groupsOfRows_nonempty)
qed

theorem no_empty_group_witness:
  "(\<exists>shards'. shardData exampleGroups 5 = Some shards' \<and> groups (shards' ! 1) \<noteq> [] \<and>
      rows (groups (shards' ! 1) ! 0) \<noteq> []) \<and>
   groups (getShard 1 5 exampleGroups) \<noteq> [] \<and>
   rows (groups (getShard 1 5 exampleGroups) ! 0) \<noteq> []"
proof -
  from no_empty_group[of 5 exampleGroups 1]
  have a: "\<forall>sh \<in> set (the (shardData exampleGroups 5)). \<forall>g \<in> set (groups sh). rows g \<noteq> []"
    and b: "\<forall>g \<in> set (groups (getShard 1 5 exampleGroups)). rows g \<noteq> []"
    by auto
  have g: "groups (getShard 1 5 exampleGroups) \<noteq> []"
    by (simp add: getShard_exampleGroups_1)
  then have m: "groups (getShard 1 5 exampleGroups) ! 0 \<in> set (groups (getShard 1 5 exampleGroups))"
    by simp
  from a have "\<forall>g \<in> set (groups (getShard 1 5 exampleGroups)). rows g \<noteq> []"
    by (simp add: shardData_exampleGroups)
  with m have "rows (groups (getShard 1 5 exampleGroups) ! 0) \<noteq> []"
    by blast
  moreover from b m have "rows (groups (getShard 1 5 exampleGroups) ! 0) \<noteq> []"
    by blast
  ultimately show ?thesis
    using g by (simp add: shardData_exampleGroups)
qed

section \<open>A shard size above the number of rows\<close>

text \<open>
  Claim C4, as stated, fails for an input without rows: \<open>shardData\<close> then returns no
  shard at all, whatever the shard size.
\<close>

theorem shardData_single_shard_counterexample:
  "int (length (flattened [])) < 1 \<and> shardData [] 1 = Some [] \<and>
   map_option length (shardData [] 1) \<noteq> Some 1"
  by (simp add: shardData_empty flattened_def)

text \<open>
  Claim C4, amended. For an input with at least one row and a shard size above the number
  of rows, \<open>shardData\<close> returns exactly one shard, with id 0, whose rows are the rows
  of the input; when the row ids are unique they are the flattened rows, in order.
\<close>

theorem shardData_single_shard:
  assumes "flattened gs \<noteq> []" and "int (length (flattened gs)) < sz"
  shows "\<exists>sh. shardData gs sz = Some [sh] \<and> shardId sh = 0 \<and>
           set (shardRowsOf sh) = set (flattened gs) \<and>
           (distinct (map id_row (flattened gs)) \<longrightarrow> shardRowsOf sh = flattened gs)"
proof -
  from assms have pos: "0 < sz" by linarith
  from assms(1) have "0 < length (flattened gs)" by simp
  then have one: "- ((- int (length (flattened gs))) div sz) = 1"
    using assms(2) by (rule ceil_div_one)
  have sd: "shardData gs sz = Some [getShard 0 sz gs]"
    using shardData_pos[OF pos, of gs] by (simp add: one)
  have win: "js_slice (flattened gs) (0 * sz) (0 * sz + sz) = flattened gs"
    using assms(2) by (intro js_slice_all) simp
  have "set (shardRowsOf (getShard 0 sz gs)) = set (flattened gs)"
    by (simp only: set_shardRowsOf_getShard win)
  moreover have "distinct (map id_row (flattened gs)) \<longrightarrow>
      shardRowsOf (getShard 0 sz gs) = flattened gs"
    by (simp add: shardRowsOf_getShard win[simplified])
  ultimately show ?thesis
    using sd getShard_shardId[of 0 sz gs] by blast
qed

theorem shardData_single_shard_witness:
  "\<exists>sh. shardData fiveRows 6 = Some [sh] \<and> shardId sh = 0 \<and>
     shardRowsOf sh = map exampleRow [0, 1, 2, 3, 4]"
proof -
  have "\<exists>sh. shardData fiveRows 6 = Some [sh] \<and> shardId sh = 0 \<and>
          set (shardRowsOf sh) = set (flattened fiveRows) \<and>
          shardRowsOf sh = flattened fiveRows"
    using shardData_single_shard[of fiveRows 6] nonempty_fiveRows
    by (simp add: length_fiveRows distinct_fiveRows)
  then show ?thesis
    unfolding flattened_fiveRows by blast
qed

section \<open>Shard ids beyond the range\<close>

text \<open>
  Claim C5. For a positive shard size and a shard id of at least
  \<open>ceil(totalRows / shardSize)\<close>, \<open>getShard\<close> returns the shard with that id and
  an empty group list.
\<close>

theorem getShard_out_of_range:
  assumes "0 < sz" and "\<lceil>real (length (flattened gs)) / real_of_int sz\<rceil> \<le> sid"
  shows "getShard sid sz gs = \<lparr>shardId = sid, groups = []\<rparr>"
proof -
  let ?n = "- ((- int (length (flattened gs))) div sz)"
  have n: "?n \<le> sid"
    using assms(2) by (simp only: ceiling_rows)
  have "0 \<le> ?n"
    using assms(1) by (rule ceil_div_nonneg)
  then have "int (length (flattened gs)) \<le> ?n * sz"
    using ceil_div_covers[OF assms(1), of "length (flattened gs)"] by simp
  also have "\<dots> \<le> sid * sz"
    using mult_right_mono[OF n, of sz] assms(1) by simp
  finally have "js_slice (flattened gs) (sid * sz) (sid * sz + sz) = []"
    using assms(1) by (simp add: js_slice_beyond)
  then have "groups (getShard sid sz gs) = []"
    by (simp add: getShard_groups groupsOfRows_Nil)
  moreover have "shardId (getShard sid sz gs) = sid"
    by (rule getShard_shardId)
  ultimately show ?thesis
    by (cases "getShard sid sz gs") simp
qed

theorem getShard_out_of_range_witness:
  "getShard 3 5 exampleGroups = \<lparr>shardId = 3, groups = []\<rparr> \<and>
   getShard 7 5 [] = \<lparr>shardId = 7, groups = []\<rparr>"
proof
  show "getShard 3 5 exampleGroups = \<lparr>shardId = 3, groups = []\<rparr>"
    using getShard_out_of_range[of 5 exampleGroups 3] by (simp add: length_exampleGroups)
  show "getShard 7 5 [] = \<lparr>shardId = 7, groups = []\<rparr>"
    using getShard_out_of_range[of 5 "[]" 7] by (simp add: flattened_def)
qed

section \<open>Negative shard ids\<close>

text \<open>
  Claim C9. There are a negative shard id and an input for which \<open>getShard\<close> returns
  groups: on every input of five rows, \<open>getShard(-2, 2, groups)\<close> slices the flattened
  rows from -4 to -2, which \<open>slice\<close> counts from the end, and returns the rows at the
  flattened positions 1 and 2.
\<close>

theorem getShard_negative_id:
  "(\<exists>sid gs'. sid < 0 \<and> groups (getShard sid 2 gs') \<noteq> []) \<and>
   (length (flattened gs) = 5 \<longrightarrow>
      set (shardRowsOf (getShard (- 2) 2 gs)) = {flattened gs ! 1, flattened gs ! 2} \<and>
      groups (getShard (- 2) 2 gs) \<noteq> [] \<and>
      (distinct (map id_row (flattened gs)) \<longrightarrow>
         shardRowsOf (getShard (- 2) 2 gs) = [flattened gs ! 1, flattened gs ! 2]))"
proof (intro conjI impI)
  have "(- 2 :: int) < 0 \<and> groups (getShard (- 2) 2 fiveRows) \<noteq> []"
    by (simp add: getShard_fiveRows)
  then show "\<exists>sid gs'. sid < 0 \<and> groups (getShard sid 2 gs') \<noteq> []"
    by blast
next
  assume len: "length (flattened gs) = 5"
  show s: "set (shardRowsOf (getShard (- 2) 2 gs)) = {flattened gs ! 1, flattened gs ! 2}"
    by (simp only: set_shardRowsOf_getShard five_window[OF len]) simp
  show "groups (getShard (- 2) 2 gs) \<noteq> []"
  proof
    assume "groups (getShard (- 2) 2 gs) = []"
    then have "set (shardRowsOf (getShard (- 2) 2 gs)) = {}"
      by (simp add: shardRowsOf_def)
    with s show False by simp
  qed
  assume "distinct (map id_row (flattened gs))"
  then show "shardRowsOf (getShard (- 2) 2 gs) = [flattened gs ! 1, flattened gs ! 2]"
    by (simp only: shardRowsOf_getShard five_window[OF len])
qed

theorem getShard_negative_id_witness:
  "shardRowsOf (getShard (- 2) 2 fiveRows) = [exampleRow 1, exampleRow 2] \<and>
   groups (getShard (- 2) 2 fiveRows) =
     [\<lparr>groupName = ''a'', rows = [exampleRow 1, exampleRow 2]\<rparr>]"
proof -
  have "shardRowsOf (getShard (- 2) 2 fiveRows) = [flattened fiveRows ! 1, flattened fiveRows ! 2]"
    using getShard_negative_id[of fiveRows] length_fiveRows distinct_fiveRows by blast
  then show ?thesis
    by (simp add: flattened_fiveRows getShard_fiveRows)
qed

section \<open>The message handler\<close>




section \<open>Paging\<close>

text \<open>
  Claim C6. From a state with 10 rows per page, a shard size of 1000, page 1 and a current
  shard with id 0: before each of the first 99 calls of \<open>nextPage\<close> the target shard
  id is 0 and the call changes nothing but the page, so no shard is loaded; after them the
  page is 100. The 100th call computes the target 1 and loads that shard.
\<close>

theorem nextPage_hundred_pages:
  assumes "rowsPerPage c = 10" and "shardSize (shardedInputGroups c) = 1000"
    and "currentPage c = 1" and "currentShard c = Some sh" and "shardId sh = 0"
  shows "(\<forall>n < 99.
            js_floor_div (currentPage (run (replicate n NextPage) c) *
                          rowsPerPage (run (replicate n NextPage) c))
              (shardSize (shardedInputGroups (run (replicate n NextPage) c))) = Finite 0 \<and>
            nextPage (run (replicate n NextPage) c) = (Resolved, c\<lparr>currentPage := int n + 2\<rparr>)) \<and>
         run (replicate 99 NextPage) c = c\<lparr>currentPage := 100\<rparr> \<and>
         js_floor_div (currentPage (run (replicate 99 NextPage) c) *
                       rowsPerPage (run (replicate 99 NextPage) c))
           (shardSize (shardedInputGroups (run (replicate 99 NextPage) c))) = Finite 1 \<and>
         loads (run (replicate 100 NextPage) c) = loads c @ [Finite 1] \<and>
         currentShard (run (replicate 100 NextPage) c) =
           (case db_get (dataStorageService c) (Finite 1) of
              Resolves s \<Rightarrow> s | Rejects \<Rightarrow> Some sh)"
proof (intro conjI allI impI)
  fix n :: nat assume n: "n < 99"
  then have run: "run (replicate n NextPage) c = c\<lparr>currentPage := 1 + int n\<rparr>"
    using ninety_nine_pages[OF assms, of n] by simp
  show t: "js_floor_div (currentPage (run (replicate n NextPage) c) *
                          rowsPerPage (run (replicate n NextPage) c))
              (shardSize (shardedInputGroups (run (replicate n NextPage) c))) = Finite 0"
  proof -
    have tb: "js_floor_div ((1 + int n) * 10) 1000 = Finite 0"
      using n by (intro target_below_100) simp_all
    have sel: "currentPage (c\<lparr>currentPage := 1 + int n\<rparr>) = 1 + int n"
      "rowsPerPage (c\<lparr>currentPage := 1 + int n\<rparr>) = 10"
      "shardSize (shardedInputGroups (c\<lparr>currentPage := 1 + int n\<rparr>)) = 1000"
      using assms(1,2) by simp_all
    show ?thesis
      unfolding run by (simp only: sel tb)
  qed
  have "\<not> differs (js_floor_div (currentPage (run (replicate n NextPage) c) *
                          rowsPerPage (run (replicate n NextPage) c))
              (shardSize (shardedInputGroups (run (replicate n NextPage) c))))
            (currentShard (run (replicate n NextPage) c))"
    unfolding t unfolding run using assms(4,5) by (simp add: differs_def)
  from nextPage_same_shard[OF this]
  show "nextPage (run (replicate n NextPage) c) = (Resolved, c\<lparr>currentPage := int n + 2\<rparr>)"
    unfolding run by simp
next
  show r99: "run (replicate 99 NextPage) c = c\<lparr>currentPage := 100\<rparr>"
    using ninety_nine_pages[OF assms, of 99] by simp
  show t: "js_floor_div (currentPage (run (replicate 99 NextPage) c) *
                       rowsPerPage (run (replicate 99 NextPage) c))
           (shardSize (shardedInputGroups (run (replicate 99 NextPage) c))) = Finite 1"
    unfolding r99 using assms(1,2) by (simp add: js_floor_div_def)
  have d: "differs (js_floor_div (currentPage (c\<lparr>currentPage := 100\<rparr>) *
                       rowsPerPage (c\<lparr>currentPage := 100\<rparr>))
           (shardSize (shardedInputGroups (c\<lparr>currentPage := 100\<rparr>))))
         (currentShard (c\<lparr>currentPage := 100\<rparr>))"
    using assms by (simp add: js_floor_div_def differs_def)
  have r100: "run (replicate 100 NextPage) c = snd (nextPage (c\<lparr>currentPage := 100\<rparr>))"
    using run_replicate_Suc[of 99 NextPage c] r99 by simp
  show "loads (run (replicate 100 NextPage) c) = loads c @ [Finite 1]"
    unfolding r100 nextPage_other_shard[OF d] using assms(1,2) by (simp add: js_floor_div_def)
  show "currentShard (run (replicate 100 NextPage) c) =
           (case db_get (dataStorageService c) (Finite 1) of
              Resolves s \<Rightarrow> s | Rejects \<Rightarrow> Some sh)"
    unfolding r100 using assms d
    by (simp add: nextPage_def Let_def js_floor_div_def loadShard_def getShard_service_def
        split: Promise.split)
qed

theorem nextPage_hundred_pages_witness:
  "run (replicate 99 NextPage) exampleComponent = exampleComponent\<lparr>currentPage := 100\<rparr> \<and>
   loads (run (replicate 99 NextPage) exampleComponent) = [Finite 0] \<and>
   loads (run (replicate 100 NextPage) exampleComponent) = [Finite 0, Finite 1] \<and>
   currentShard (run (replicate 100 NextPage) exampleComponent) =
     Some \<lparr>shardId = 1, groups = []\<rparr>"
proof -
  have h: "rowsPerPage exampleComponent = 10"
    "shardSize (shardedInputGroups exampleComponent) = 1000"
    "currentPage exampleComponent = 1"
    "currentShard exampleComponent = Some \<lparr>shardId = 0, groups = []\<rparr>"
    "shardId \<lparr>shardId = 0, groups = []\<rparr> = 0"
    by (simp_all add: exampleComponent_eq)
  note t = nextPage_hundred_pages[OF h]
  from t have a: "run (replicate 99 NextPage) exampleComponent = exampleComponent\<lparr>currentPage := 100\<rparr>"
    by blast
  from t have b: "loads (run (replicate 100 NextPage) exampleComponent) =
      loads exampleComponent @ [Finite 1]"
    by blast
  from t have c: "currentShard (run (replicate 100 NextPage) exampleComponent) =
      (case db_get (dataStorageService exampleComponent) (Finite 1) of
         Resolves s \<Rightarrow> s | Rejects \<Rightarrow> Some \<lparr>shardId = 0, groups = []\<rparr>)"
    by blast
  have l: "loads exampleComponent = [Finite 0]"
    by (simp add: exampleComponent_eq)
  have d: "db_get (dataStorageService exampleComponent) (Finite 1) =
      Resolves (Some \<lparr>shardId = 1, groups = []\<rparr>)"
    by (simp add: exampleComponent_eq exampleService_def)
  show ?thesis
    unfolding a b c d using l by simp
qed

text \<open>
  Claim C7. With \<open>currentPage <= 1\<close>, \<open>prevPage\<close> leaves the state as it is and
  loads nothing. With \<open>currentPage > 1\<close> it takes one from \<open>currentPage\<close>, keeps
  \<open>rowsPerPage\<close>, and loads the shard
  \<open>floor(((currentPage - 1) * rowsPerPage) / shardSize)\<close>, computed with the new
  \<open>currentPage\<close>, exactly when that differs from the id of the current shard;
  otherwise nothing but the page changes.
\<close>

theorem prevPage_behaviour:
  "(currentPage c \<le> 1 \<longrightarrow> prevPage c = (Resolved, c)) \<and>
   (1 < currentPage c \<longrightarrow>
      currentPage (snd (prevPage c)) = currentPage c - 1 \<and>
      rowsPerPage (snd (prevPage c)) = rowsPerPage c \<and>
      (let c' = snd (prevPage c);
           target = js_floor_div ((currentPage c' - 1) * rowsPerPage c')
                      (shardSize (shardedInputGroups c'))
       in if differs target (currentShard c)
          then loads c' = loads c @ [target] \<and>
               currentShard c' =
                 (case db_get (dataStorageService c) target of
                    Resolves s \<Rightarrow> s | Rejects \<Rightarrow> currentShard c)
          else prevPage c = (Resolved, c\<lparr>currentPage := currentPage c - 1\<rparr>)))"
  by (simp add: prevPage_def Let_def loadShard_def getShard_service_def split: Promise.split)

theorem prevPage_behaviour_witness:
  "prevPage exampleComponent = (Resolved, exampleComponent) \<and>
   currentPage (snd (prevPage examplePage101)) = 100 \<and>
   loads (snd (prevPage examplePage101)) = [Finite 0, Finite 0] \<and>
   currentShard (snd (prevPage examplePage101)) = Some \<lparr>shardId = 0, groups = []\<rparr> \<and>
   prevPage (snd (prevPage examplePage101)) =
     (Resolved, (snd (prevPage examplePage101))\<lparr>currentPage := 99\<rparr>)"
proof -
  have a: "prevPage exampleComponent = (Resolved, exampleComponent)"
    using prevPage_behaviour[of exampleComponent] by (simp add: exampleComponent_eq)
  have p: "snd (prevPage examplePage101) =
      examplePage101\<lparr>currentPage := 100, currentShard := Some \<lparr>shardId = 0, groups = []\<rparr>,
        loads := [Finite 0, Finite 0]\<rparr>"
    by (simp add: examplePage101_eq prevPage_def Let_def js_floor_div_def differs_def
        loadShard_def getShard_service_def exampleService_def)
  have gt: "1 < currentPage examplePage101"
    by (simp add: examplePage101_eq)
  have "currentPage (snd (prevPage examplePage101)) = currentPage examplePage101 - 1"
    using prevPage_behaviour[of examplePage101] gt by blast
  then have b: "currentPage (snd (prevPage examplePage101)) = 100"
    by (simp add: examplePage101_eq)
  have l: "loads (snd (prevPage examplePage101)) = [Finite 0, Finite 0] \<and>
      currentShard (snd (prevPage examplePage101)) = Some \<lparr>shardId = 0, groups = []\<rparr>"
    unfolding p by simp
  have c: "prevPage (snd (prevPage examplePage101)) =
      (Resolved, (snd (prevPage examplePage101))\<lparr>currentPage := 99\<rparr>)"
    using prevPage_behaviour[of "snd (prevPage examplePage101)"]
    unfolding p by (simp add: examplePage101_eq js_floor_div_def differs_def Let_def prevPage_def)
  from a b l c show ?thesis by simp
qed

text \<open>
  Claim C10. \<open>currentPage\<close> starts at 1; \<open>nextPage\<close> keeps it or adds one,
  \<open>prevPage\<close> takes one away only when it is above 1, \<open>setRowsPerPage\<close> sets it to
  1 and the other methods keep it. So every call keeps \<open>currentPage >= 1\<close>, and it
  holds after every run of calls on a new component.
\<close>

theorem currentPage_ge_1:
  "currentPage (GroupedInputComponent_new svc) = 1 \<and>
   currentPage (snd (nextPage c)) \<in> {currentPage c, currentPage c + 1} \<and>
   currentPage (snd (prevPage c)) = (if 1 < currentPage c then currentPage c - 1 else currentPage c) \<and>
   currentPage (snd (setRowsPerPage n c)) = 1 \<and>
   currentPage (snd (loadShard k c)) = currentPage c \<and>
   currentPage (snd (initialize c)) = currentPage c \<and>
   currentPage (ngOnInit c) = currentPage c \<and>
   (1 \<le> currentPage c \<longrightarrow> 1 \<le> currentPage (call x c)) \<and>
   1 \<le> currentPage (run calls (GroupedInputComponent_new svc))"
proof -
  have new: "currentPage (GroupedInputComponent_new svc) = 1"
    by (simp add: GroupedInputComponent_new_def)
  have "currentPage (snd (nextPage c)) \<in> {currentPage c, currentPage c + 1}"
    by (simp add: nextPage_def Let_def loadShard_def split: Promise.split)
  moreover have "currentPage (snd (prevPage c)) =
      (if 1 < currentPage c then currentPage c - 1 else currentPage c)"
    by (simp add: prevPage_def Let_def loadShard_def split: Promise.split)
  moreover have "currentPage (snd (setRowsPerPage n c)) = 1"
    by (simp add: setRowsPerPage_def loadShard_def split: Promise.split)
  moreover have "currentPage (snd (loadShard k c)) = currentPage c"
    by (rule loadShard_currentPage)
  moreover have "currentPage (snd (initialize c)) = currentPage c"
    by (simp add: initialize_def loadShard_currentPage)
  moreover have "currentPage (ngOnInit c) = currentPage c"
    by (simp add: ngOnInit_def initialize_def loadShard_currentPage)
  moreover have "1 \<le> currentPage c \<longrightarrow> 1 \<le> currentPage (call x c)"
    by (simp add: call_currentPage_ge1)
  moreover have "1 \<le> currentPage (run calls (GroupedInputComponent_new svc))"
    by (rule run_currentPage_ge1) (simp add: new)
  ultimately show ?thesis
    using new by blast
qed

theorem currentPage_ge_1_witness:
  "1 \<le> currentPage exampleComponent \<and>
   1 \<le> currentPage (call PrevPage exampleComponent) \<and>
   1 \<le> currentPage
         (run [NgOnInit, NextPage, NextPage, PrevPage, PrevPage, PrevPage, SetRowsPerPage 25,
               PrevPage, NextPage]
            (GroupedInputComponent_new exampleService))"
proof -
  have a: "1 \<le> currentPage exampleComponent"
    by (simp add: exampleComponent_eq)
  with currentPage_ge_1[of exampleService exampleComponent 0 "Finite 0" PrevPage "[]"]
  have b: "1 \<le> currentPage (call PrevPage exampleComponent)"
    by blast
  from currentPage_ge_1[of exampleService exampleComponent 0 "Finite 0" PrevPage
      "[NgOnInit, NextPage, NextPage, PrevPage, PrevPage, PrevPage, SetRowsPerPage 25,
        PrevPage, NextPage]"]
  have c: "1 \<le> currentPage
         (run [NgOnInit, NextPage, NextPage, PrevPage, PrevPage, PrevPage, SetRowsPerPage 25,
               PrevPage, NextPage]
            (GroupedInputComponent_new exampleService))"
    by blast
  from a b c show ?thesis by simp
qed

end
